theory Spec2Isabelle
  imports Main "HOL-Library.Word"
begin

section \<open>Go values\<close>

text \<open>
  \<open>oid.ID\<close> and \<open>cid.ID\<close> are 32-byte arrays in the SDK; a 256-bit word holds exactly
  those bytes, and \<open>0\<close> is the zero value of the array. A Go string is a byte sequence
  (\<open>string\<close>); \<open>time.Time\<close> is an instant in nanoseconds and \<open>time.Duration\<close> a number of
  nanoseconds, both \<open>int\<close> (their 64-bit range is not reached by the values used here).
\<close>

type_synonym oid_ID = "256 word"
type_synonym cid_ID = "256 word"
type_synonym Time = int
type_synonym Duration = int

text \<open>
  A Go slice is \<open>nil\<close> or a sequence of elements; \<open>len\<close> of \<open>nil\<close> is 0. The cache
  answers a miss with \<open>nil\<close>, so the two are kept apart.
\<close>

datatype 'a slice = NilSlice | Slice "'a list"

fun len :: "'a slice \<Rightarrow> nat" where
  "len NilSlice = 0"
| "len (Slice xs) = length xs"

text \<open>
  \<open>strings.HasPrefix(s, prefix)\<close> is
  \<open>len(s) >= len(prefix) && s[0:len(prefix)] == prefix\<close>.
\<close>

definition HasPrefix :: "string \<Rightarrow> string \<Rightarrow> bool" where
  "HasPrefix s p = (length s \<ge> length p \<and> take (length p) s = p)"

text \<open>
  The Go \<open>error\<close> values that occur: the sentinel of the cache library and the
  messages built by \<open>fmt.Errorf\<close>. \<open>None\<close> of \<open>error option\<close> is the \<open>nil\<close> error.
\<close>

datatype error = KeyNotFoundError | Errorf string

text \<open>
  A \<open>*zap.Logger\<close> is the sequence of records written to it so far; \<open>Warn\<close> appends
  a message with its string fields. The logger of a cache is taken to be non-nil.
\<close>

datatype log_entry = Warn string "(string \<times> string) list"
type_synonym zap_Logger = "log_entry list"


section \<open>The cache key\<close>

record ObjectsListKey =
  cid :: string
  prefix :: string
  latestOnly :: bool

text \<open>
  \<open>cnr.EncodeToString()\<close> is the SDK's text form of a container id. It is a parameter
  \<open>enc\<close> of every operation that calls it.
\<close>

definition CreateObjectsListCacheKey ::
  "(cid_ID \<Rightarrow> string) \<Rightarrow> cid_ID \<Rightarrow> string \<Rightarrow> bool \<Rightarrow> ObjectsListKey" where
  "CreateObjectsListCacheKey enc cnr pfx lo =
     \<lparr>cid = enc cnr, prefix = pfx, latestOnly = lo\<rparr>"


section \<open>The \<open>gcache\<close> LRU cache with expiration\<close>

text \<open>
  Modelled from the spec: the cache library \<open>github.com/bluele/gcache\<close> that
  \<open>ObjectsListCache\<close> wraps is imported by the source and is not part of it. The spec
  describes it as least-recently-used with a fixed capacity plus a fixed lifetime per
  entry, an entry being returned only if present and not expired. The model below is that
  cache as the library's LRU variant behaves: keys and values are \<open>interface{}\<close> (any
  dynamic type), the eviction list has the most recently used item first, \<open>Set\<close> stamps
  the item with \<open>now + lifetime\<close>, an item is expired when its stamp is before \<open>now\<close>,
  \<open>Get\<close> moves a live item to the front and drops an expired one, \<open>Keys(true)\<close> lists
  the keys of live items without changing the cache, and building a cache of size
  \<open>\<le> 0\<close> panics. The instant \<open>now\<close> read from the clock is an argument of each call.
\<close>

datatype dyn_key = KeyObjectsList ObjectsListKey | KeyOther string string
  \<comment> \<open>a key of another dynamic type: the type's name (what \<open>%T\<close> prints) and its value\<close>

datatype dyn_value = ValOidSlice "oid_ID slice" | ValOther string
  \<comment> \<open>a value of another dynamic type: the type's name\<close>

record lruItem =
  item_key :: dyn_key
  item_value :: dyn_value
  item_expiration :: Time

record LRUCache =
  capacity :: int
  lifetime :: Duration
  evictList :: "lruItem list"

definition gcache_New :: "int \<Rightarrow> Duration \<Rightarrow> LRUCache option" where
  "gcache_New sz lt =
     (if sz \<le> 0 then None else Some \<lparr>capacity = sz, lifetime = lt, evictList = []\<rparr>)"

definition IsExpired :: "lruItem \<Rightarrow> Time \<Rightarrow> bool" where
  "IsExpired it now = (item_expiration it < now)"

definition lru_find :: "LRUCache \<Rightarrow> dyn_key \<Rightarrow> lruItem option" where
  "lru_find c k = find (\<lambda>it. item_key it = k) (evictList c)"

definition removeElement :: "LRUCache \<Rightarrow> dyn_key \<Rightarrow> LRUCache" where
  "removeElement c k = c\<lparr>evictList := filter (\<lambda>it. item_key it \<noteq> k) (evictList c)\<rparr>"

definition MoveToFront :: "LRUCache \<Rightarrow> lruItem \<Rightarrow> LRUCache" where
  "MoveToFront c it =
     c\<lparr>evictList := it # filter (\<lambda>x. item_key x \<noteq> item_key it) (evictList c)\<rparr>"

definition gcache_Get :: "LRUCache \<Rightarrow> Time \<Rightarrow> dyn_key \<Rightarrow> (error + dyn_value) \<times> LRUCache" where
  "gcache_Get c now k =
     (case lru_find c k of
        None \<Rightarrow> (Inl KeyNotFoundError, c)
      | Some it \<Rightarrow>
          if \<not> IsExpired it now then (Inr (item_value it), MoveToFront c it)
          else (Inl KeyNotFoundError, removeElement c k))"

definition evict :: "LRUCache \<Rightarrow> LRUCache" where
  "evict c = c\<lparr>evictList := butlast (evictList c)\<rparr>"

definition gcache_Set ::
  "LRUCache \<Rightarrow> Time \<Rightarrow> dyn_key \<Rightarrow> dyn_value \<Rightarrow> error option \<times> LRUCache" where
  "gcache_Set c now k v =
     (let it = \<lparr>item_key = k, item_value = v, item_expiration = now + lifetime c\<rparr> in
      case lru_find c k of
        Some old \<Rightarrow> (None, MoveToFront c it)
      | None \<Rightarrow>
          (let c' = (if int (length (evictList c)) \<ge> capacity c then evict c else c)
           in (None, c'\<lparr>evictList := it # evictList c'\<rparr>)))"

definition gcache_Has :: "LRUCache \<Rightarrow> Time \<Rightarrow> dyn_key \<Rightarrow> bool" where
  "gcache_Has c now k =
     (case lru_find c k of None \<Rightarrow> False | Some it \<Rightarrow> \<not> IsExpired it now)"

definition gcache_Keys :: "LRUCache \<Rightarrow> Time \<Rightarrow> bool \<Rightarrow> dyn_key list" where
  "gcache_Keys c now checkExpired =
     filter (\<lambda>k. \<not> checkExpired \<or> gcache_Has c now k) (map item_key (evictList c))"

definition gcache_Remove :: "LRUCache \<Rightarrow> dyn_key \<Rightarrow> bool \<times> LRUCache" where
  "gcache_Remove c k =
     (case lru_find c k of None \<Rightarrow> (False, c) | Some it \<Rightarrow> (True, removeElement c k))"


section \<open>The objects-list cache (\<open>api/cache/objectslist.go\<close>)\<close>

record ObjectsListCache =
  cache :: LRUCache
  logger :: zap_Logger

record Config =
  Size :: int
  Lifetime :: Duration
  Logger :: zap_Logger

definition Second :: Duration where
  "Second = 1000000000"

definition DefaultObjectsListCacheLifetime :: Duration where
  "DefaultObjectsListCacheLifetime = Second * 60"

definition DefaultObjectsListCacheSize :: int where
  "DefaultObjectsListCacheSize = 100000"

definition DefaultObjectsListConfig :: "zap_Logger \<Rightarrow> Config" where
  "DefaultObjectsListConfig lg =
     \<lparr>Size = DefaultObjectsListCacheSize, Lifetime = DefaultObjectsListCacheLifetime,
      Logger = lg\<rparr>"

text \<open>\<open>None\<close> is the panic of the builder on a size that is not positive.\<close>

definition NewObjectsListCache :: "Config \<Rightarrow> ObjectsListCache option" where
  "NewObjectsListCache config =
     (case gcache_New (Size config) (Lifetime config) of
        None \<Rightarrow> None
      | Some gc \<Rightarrow> Some \<lparr>cache = gc, logger = Logger config\<rparr>)"

definition Get :: "ObjectsListCache \<Rightarrow> Time \<Rightarrow> ObjectsListKey \<Rightarrow> oid_ID slice \<times> ObjectsListCache" where
  "Get l now key =
     (case gcache_Get (cache l) now (KeyObjectsList key) of
        (Inl err, gc) \<Rightarrow> (NilSlice, l\<lparr>cache := gc\<rparr>)
      | (Inr entry, gc) \<Rightarrow>
          (case entry of
             ValOther T \<Rightarrow>
               (NilSlice,
                l\<lparr>cache := gc,
                  logger := logger l @
                    [Warn ''invalid cache entry type''
                       [(''actual'', T), (''expected'', ''[]oid.ID'')]]\<rparr>)
           | ValOidSlice result \<Rightarrow> (result, l\<lparr>cache := gc\<rparr>)))"

definition Put ::
  "ObjectsListCache \<Rightarrow> Time \<Rightarrow> ObjectsListKey \<Rightarrow> oid_ID slice \<Rightarrow> error option \<times> ObjectsListCache" where
  "Put l now key oids =
     (if len oids = 0
      then (Some (Errorf (''list is empty, cid: '' @ cid key @ '', prefix: '' @ prefix key)), l)
      else (case gcache_Set (cache l) now (KeyObjectsList key) (ValOidSlice oids) of
              (err, gc) \<Rightarrow> (err, l\<lparr>cache := gc\<rparr>)))"

text \<open>
  The loop of \<open>CleanCacheEntriesContainingObject\<close> over the keys that \<open>Keys(true)\<close>
  returned. The library lists them in the iteration order of a Go map, which is not
  fixed; the model lists them in the order of the eviction list.
\<close>

fun clean_loop :: "string \<Rightarrow> string \<Rightarrow> ObjectsListCache \<Rightarrow> dyn_key list \<Rightarrow> ObjectsListCache" where
  "clean_loop cidStr objectName l [] = l"
| "clean_loop cidStr objectName l (key # keys) =
     (case key of
        KeyOther T v \<Rightarrow>
          clean_loop cidStr objectName
            (l\<lparr>logger := logger l @
                 [Warn ''invalid cache key type''
                    [(''actual'', T), (''expected'', ''cache.ObjectsListKey'')]]\<rparr>) keys
      | KeyObjectsList k \<Rightarrow>
          if cidStr = cid k \<and> HasPrefix objectName (prefix k)
          then clean_loop cidStr objectName
                 (l\<lparr>cache := snd (gcache_Remove (cache l) (KeyObjectsList k))\<rparr>) keys
          else clean_loop cidStr objectName l keys)"

definition CleanCacheEntriesContainingObject ::
  "(cid_ID \<Rightarrow> string) \<Rightarrow> ObjectsListCache \<Rightarrow> Time \<Rightarrow> string \<Rightarrow> cid_ID \<Rightarrow> ObjectsListCache" where
  "CleanCacheEntriesContainingObject enc l now objectName cnr =
     (let cidStr = enc cnr;
          keys = gcache_Keys (cache l) now True
      in clean_loop cidStr objectName l keys)"

text \<open>
  The test of the loop on one key of any dynamic type: it holds for an \<open>ObjectsListKey\<close>
  of the written container whose prefix starts the object name, and for no other key.
\<close>

definition matches :: "string \<Rightarrow> string \<Rightarrow> dyn_key \<Rightarrow> bool" where
  "matches cidStr objectName key =
     (case key of
        KeyObjectsList k \<Rightarrow> cidStr = cid k \<and> HasPrefix objectName (prefix k)
      | KeyOther T v \<Rightarrow> False)"


section \<open>The scenario of the specification\<close>

text \<open>
  Container \<open>C1\<close>, a listing with prefix \<open>a/\<close> cached as
  \<open>{C1, "a/", false} -> [id1]\<close>, in a cache of two entries whose entry expires at
  instant 100.
\<close>

definition scenario_enc :: "cid_ID \<Rightarrow> string" where
  "scenario_enc c = (if c = 1 then ''C1'' else ''C2'')"

definition scenario_key :: ObjectsListKey where
  "scenario_key = \<lparr>cid = ''C1'', prefix = ''a/'', latestOnly = False\<rparr>"

definition scenario_cache :: ObjectsListCache where
  "scenario_cache =
     \<lparr>cache = \<lparr>capacity = 2, lifetime = 60,
               evictList = [\<lparr>item_key = KeyObjectsList scenario_key,
                              item_value = ValOidSlice (Slice [1]),
                              item_expiration = 100\<rparr>]\<rparr>,
      logger = []\<rparr>"

definition corrupted_cache :: ObjectsListCache where
  "corrupted_cache =
     \<lparr>cache = \<lparr>capacity = 2, lifetime = 60,
               evictList = [\<lparr>item_key = KeyObjectsList scenario_key,
                              item_value = ValOther ''string'',
                              item_expiration = 100\<rparr>]\<rparr>,
      logger = []\<rparr>"


section \<open>Sequences of calls\<close>

text \<open>
  One call of the cache's interface at an instant, and a sequence of calls applied from
  left to right. \<open>bounded\<close> is the size bound of a built cache; \<open>distinct_keys\<close>
  says that no two items of the eviction list have the same key, as in the library, which
  also holds the items in a map by key.
\<close>

datatype cache_op =
    OpGet ObjectsListKey
  | OpPut ObjectsListKey "oid_ID slice"
  | OpClean string cid_ID

fun apply_op :: "(cid_ID \<Rightarrow> string) \<Rightarrow> ObjectsListCache \<Rightarrow> Time \<times> cache_op \<Rightarrow> ObjectsListCache" where
  "apply_op enc l (now, OpGet k) = snd (Get l now k)"
| "apply_op enc l (now, OpPut k oids) = snd (Put l now k oids)"
| "apply_op enc l (now, OpClean objectName cnr) =
     CleanCacheEntriesContainingObject enc l now objectName cnr"

fun run_ops :: "(cid_ID \<Rightarrow> string) \<Rightarrow> ObjectsListCache \<Rightarrow> (Time \<times> cache_op) list \<Rightarrow> ObjectsListCache" where
  "run_ops enc l [] = l"
| "run_ops enc l (c # cs) = run_ops enc (apply_op enc l c) cs"

definition bounded :: "ObjectsListCache \<Rightarrow> bool" where
  "bounded l = (0 < capacity (cache l) \<and> int (length (evictList (cache l))) \<le> capacity (cache l))"

definition distinct_keys :: "ObjectsListCache \<Rightarrow> bool" where
  "distinct_keys l = distinct (map item_key (evictList (cache l)))"

text \<open>
  A cache of two entries as \<open>NewObjectsListCache\<close> builds it, and three writes of
  listings under three keys.
\<close>

definition small_config :: Config where
  "small_config = \<lparr>Size = 2, Lifetime = 60, Logger = []\<rparr>"

definition small_cache :: ObjectsListCache where
  "small_cache = \<lparr>cache = \<lparr>capacity = 2, lifetime = 60, evictList = []\<rparr>, logger = []\<rparr>"

definition three_puts :: "(Time \<times> cache_op) list" where
  "three_puts =
     [(1, OpPut \<lparr>cid = ''C1'', prefix = ''a/'', latestOnly = False\<rparr> (Slice [1])),
      (2, OpPut \<lparr>cid = ''C1'', prefix = ''b/'', latestOnly = False\<rparr> (Slice [2])),
      (3, OpPut \<lparr>cid = ''C1'', prefix = ''c/'', latestOnly = False\<rparr> (Slice [3]))]"


section \<open>The tree-service node types (\<open>api/data/tree.go\<close>)\<close>

text \<open>
  \<open>NodeVersion\<close> embeds \<open>BaseNodeVersion\<close>, whose \<open>OID\<close> is an \<open>oid.ID\<close> value (not
  a pointer), and has a nullable pointer \<open>DeleteMarker\<close>. \<open>user.ID\<close> is a 25-byte array.
\<close>

type_synonym user_ID = "200 word"

record BaseNodeVersion =
  ID :: "64 word"
  OID :: oid_ID
  Timestamp :: "64 word"

record DeleteMarkerInfo =
  FilePath :: string
  Created :: Time
  Owner :: user_ID

record NodeVersion = BaseNodeVersion +
  DeleteMarker :: "DeleteMarkerInfo option"
  IsUnversioned :: bool

section \<open>The version index\<close>












section \<open>Signing of tree-service requests\<close>

text \<open>
  \<open>proto.Marshal\<close>, \<open>crypto.Sign\<close> and the bytes of the public key belong to other
  libraries: they are the parameters \<open>Marshal\<close>, \<open>Sign\<close> and \<open>PublicKeyBytes\<close>. The
  callback \<open>f\<close> stores the key and the signature in the request; it is a function on the
  state \<open>'r\<close> it writes to. \<open>TreeClient\<close> is declared elsewhere in the repository; the two
  functions read its field \<open>key\<close> only: \<open>Sign (key c) buf\<close> stands for
  \<open>crypto.Sign(&c.key.PrivateKey, buf)\<close>, which draws fresh randomness at each call, and
  \<open>PublicKeyBytes (key c)\<close> for \<open>c.key.PublicKey().Bytes()\<close>.
\<close>

type_synonym bytes = "8 word list"

record 'k TreeClient =
  key :: 'k

definition signData ::
  "('k \<Rightarrow> bytes \<Rightarrow> error + bytes) \<Rightarrow> ('k \<Rightarrow> bytes) \<Rightarrow> 'k TreeClient \<Rightarrow> bytes \<Rightarrow>
     (bytes \<Rightarrow> bytes \<Rightarrow> 'r \<Rightarrow> 'r) \<Rightarrow> 'r \<Rightarrow> error option \<times> 'r" where
  "signData Sign PublicKeyBytes c buf f r =
     (case Sign (key c) buf of
        Inl err \<Rightarrow> (Some err, r)
      | Inr sign \<Rightarrow> (None, f (PublicKeyBytes (key c)) sign r))"

definition signRequest ::
  "('m \<Rightarrow> error + bytes) \<Rightarrow> ('k \<Rightarrow> bytes \<Rightarrow> error + bytes) \<Rightarrow> ('k \<Rightarrow> bytes) \<Rightarrow>
     'k TreeClient \<Rightarrow> 'm \<Rightarrow> (bytes \<Rightarrow> bytes \<Rightarrow> 'r \<Rightarrow> 'r) \<Rightarrow> 'r \<Rightarrow> error option \<times> 'r" where
  "signRequest Marshal Sign PublicKeyBytes c requestBody f r =
     (case Marshal requestBody of
        Inl err \<Rightarrow> (Some err, r)
      | Inr buf \<Rightarrow> signData Sign PublicKeyBytes c buf f r)"

text \<open>Sample collaborators: a serializer that rejects the nil message, a signer that
  rejects the zero key.\<close>

definition sample_Marshal :: "bytes option \<Rightarrow> error + bytes" where
  "sample_Marshal m =
     (case m of None \<Rightarrow> Inl (Errorf ''proto: Marshal called with nil'') | Some b \<Rightarrow> Inr b)"

definition sample_Sign :: "8 word \<Rightarrow> bytes \<Rightarrow> error + bytes" where
  "sample_Sign k buf = (if k = 0 then Inl (Errorf ''invalid private key'') else Inr (k # buf))"

definition sample_PublicKeyBytes :: "8 word \<Rightarrow> bytes" where
  "sample_PublicKeyBytes k = [k + 1]"

definition attach :: "bytes \<Rightarrow> bytes \<Rightarrow> (bytes \<times> bytes) list \<Rightarrow> (bytes \<times> bytes) list" where
  "attach k s r = r @ [(k, s)]"


section \<open>Lemmas on the cache operations\<close>

lemma HasPrefix_iff: "HasPrefix s p \<longleftrightarrow> (\<exists>zs. s = p @ zs)"
  unfolding HasPrefix_def
  by (metis append_eq_conv_conj append_take_drop_id length_append le_add1)

lemma HasPrefix_append: "HasPrefix (p @ zs) p"
  by (simp add: HasPrefix_def)

lemma HasPrefix_empty: "HasPrefix s []"
  by (simp add: HasPrefix_def)

lemma find_filter_key:
  "find (\<lambda>it. item_key it = k) (filter (\<lambda>it. \<not> R (item_key it)) xs) =
     (if R k then None else find (\<lambda>it. item_key it = k) xs)"
  by (induction xs) auto

lemma gcache_Remove_evictList:
  "evictList (snd (gcache_Remove c k)) = filter (\<lambda>it. item_key it \<noteq> k) (evictList c)"
proof (cases "lru_find c k")
  case None
  then have "\<forall>it \<in> set (evictList c). item_key it \<noteq> k"
    by (simp add: lru_find_def find_None_iff)
  then have "filter (\<lambda>it. item_key it \<noteq> k) (evictList c) = evictList c"
    by (simp add: filter_id_conv)
  with None show ?thesis by (simp add: gcache_Remove_def)
next
  case (Some it)
  then show ?thesis by (simp add: gcache_Remove_def removeElement_def)
qed

lemma clean_loop_step:
  "\<exists>l'. clean_loop cs nm l (ky # keys) = clean_loop cs nm l' keys \<and>
        evictList (cache l') =
          filter (\<lambda>it. \<not> (item_key it = ky \<and> matches cs nm ky)) (evictList (cache l))"
proof (cases ky)
  case (KeyObjectsList k)
  show ?thesis
  proof (cases "cs = cid k \<and> HasPrefix nm (prefix k)")
    case True
    let ?l' = "l\<lparr>cache := snd (gcache_Remove (cache l) (KeyObjectsList k))\<rparr>"
    have "clean_loop cs nm l (ky # keys) = clean_loop cs nm ?l' keys"
      using True KeyObjectsList by simp
    moreover have "evictList (cache ?l') =
        filter (\<lambda>it. \<not> (item_key it = ky \<and> matches cs nm ky)) (evictList (cache l))"
      using True KeyObjectsList by (simp add: gcache_Remove_evictList matches_def)
    ultimately show ?thesis by blast
  next
    case False
    have "clean_loop cs nm l (ky # keys) = clean_loop cs nm l keys"
      using False KeyObjectsList by auto
    moreover have "evictList (cache l) =
        filter (\<lambda>it. \<not> (item_key it = ky \<and> matches cs nm ky)) (evictList (cache l))"
      using False KeyObjectsList by (simp add: matches_def)
    ultimately show ?thesis by blast
  qed
next
  case (KeyOther T v)
  let ?l' = "l\<lparr>logger := logger l @
                 [Warn ''invalid cache key type''
                    [(''actual'', T), (''expected'', ''cache.ObjectsListKey'')]]\<rparr>"
  have "clean_loop cs nm l (ky # keys) = clean_loop cs nm ?l' keys"
    using KeyOther by simp
  moreover have "evictList (cache ?l') =
        filter (\<lambda>it. \<not> (item_key it = ky \<and> matches cs nm ky)) (evictList (cache l))"
    using KeyOther by (simp add: matches_def)
  ultimately show ?thesis by blast
qed

lemma clean_loop_evictList:
  "evictList (cache (clean_loop cs nm l keys)) =
     filter (\<lambda>it. \<not> (item_key it \<in> set keys \<and> matches cs nm (item_key it)))
       (evictList (cache l))"
proof (induction keys arbitrary: l)
  case Nil
  then show ?case by simp
next
  case (Cons ky keys)
  obtain l' where step: "clean_loop cs nm l (ky # keys) = clean_loop cs nm l' keys"
    and ev: "evictList (cache l') =
          filter (\<lambda>it. \<not> (item_key it = ky \<and> matches cs nm ky)) (evictList (cache l))"
    using clean_loop_step by blast
  have "evictList (cache (clean_loop cs nm l (ky # keys))) =
      filter (\<lambda>it. \<not> (item_key it \<in> set keys \<and> matches cs nm (item_key it)))
        (filter (\<lambda>it. \<not> (item_key it = ky \<and> matches cs nm ky)) (evictList (cache l)))"
    by (simp only: step Cons.IH ev)
  also have "\<dots> = filter (\<lambda>it. \<not> (item_key it \<in> set (ky # keys) \<and> matches cs nm (item_key it)))
        (evictList (cache l))"
    unfolding filter_filter by (rule filter_cong) auto
  finally show ?case .
qed

lemma clean_loop_params:
  "capacity (cache (clean_loop cs nm l keys)) = capacity (cache l) \<and>
   lifetime (cache (clean_loop cs nm l keys)) = lifetime (cache l)"
  by (induction keys arbitrary: l)
     (auto simp: gcache_Remove_def removeElement_def split: dyn_key.splits option.splits)

lemma mem_gcache_Keys:
  "k \<in> set (gcache_Keys c now True) \<longleftrightarrow> gcache_Has c now k"
proof -
  have "gcache_Has c now k \<Longrightarrow> k \<in> item_key ` set (evictList c)"
    by (auto simp: gcache_Has_def lru_find_def split: option.splits dest!: find_Some_iff[THEN iffD1])
  then show ?thesis by (auto simp: gcache_Keys_def)
qed

lemma lru_find_Clean:
  "lru_find (cache (CleanCacheEntriesContainingObject enc l now nm cnr)) k =
     (if gcache_Has (cache l) now k \<and> matches (enc cnr) nm k then None
      else lru_find (cache l) k)"
  unfolding lru_find_def CleanCacheEntriesContainingObject_def Let_def clean_loop_evictList
    mem_gcache_Keys
  by (rule find_filter_key)

lemma fst_Get:
  "fst (Get l now ky) =
     (case lru_find (cache l) (KeyObjectsList ky) of
        None \<Rightarrow> NilSlice
      | Some it \<Rightarrow>
          if IsExpired it now then NilSlice
          else (case item_value it of ValOidSlice r \<Rightarrow> r | ValOther T \<Rightarrow> NilSlice))"
  by (simp add: Get_def gcache_Get_def split: option.splits dyn_value.splits)

lemma find_Some_filter_length:
  "find P xs = Some x \<Longrightarrow> length (filter (\<lambda>y. \<not> P y) xs) < length xs"
proof (induction xs)
  case Nil
  then show ?case by simp
next
  case (Cons a xs)
  show ?case
  proof (cases "P a")
    case True
    have "length (filter (\<lambda>y. \<not> P y) xs) \<le> length xs" by (rule length_filter_le)
    with True show ?thesis by (simp add: less_Suc_eq_le)
  next
    case False
    with Cons show ?thesis by simp
  qed
qed

lemma lru_find_key: "lru_find c k = Some it \<Longrightarrow> item_key it = k"
  by (auto simp: lru_find_def dest: find_Some_iff[THEN iffD1])

lemma MoveToFront_bounded:
  assumes "lru_find c k = Some old" and "item_key it = k"
  shows "length (evictList (MoveToFront c it)) \<le> length (evictList c)"
proof -
  have "length (filter (\<lambda>y. \<not> item_key y = k) (evictList c)) < length (evictList c)"
    using assms(1) unfolding lru_find_def by (rule find_Some_filter_length)
  then show ?thesis using assms(2) by (simp add: MoveToFront_def)
qed

lemma gcache_Get_params:
  "capacity (snd (gcache_Get c now k)) = capacity c \<and>
   lifetime (snd (gcache_Get c now k)) = lifetime c \<and>
   length (evictList (snd (gcache_Get c now k))) \<le> length (evictList c)"
proof (cases "lru_find c k")
  case None
  then show ?thesis by (simp add: gcache_Get_def)
next
  case (Some it)
  have "length (evictList (MoveToFront c it)) \<le> length (evictList c)"
    using Some lru_find_key [OF Some] by (rule MoveToFront_bounded)
  then show ?thesis using Some
    by (simp add: gcache_Get_def MoveToFront_def removeElement_def)
qed

lemma gcache_Set_params:
  "capacity (snd (gcache_Set c now k v)) = capacity c \<and>
   lifetime (snd (gcache_Set c now k v)) = lifetime c"
  by (simp add: gcache_Set_def MoveToFront_def evict_def Let_def split: option.splits)

lemma gcache_Set_length:
  assumes "0 < capacity c" and "int (length (evictList c)) \<le> capacity c"
  shows "int (length (evictList (snd (gcache_Set c now k v)))) \<le> capacity c"
proof (cases "lru_find c k")
  case None
  then show ?thesis using assms
    by (auto simp: gcache_Set_def evict_def Let_def)
next
  case (Some old)
  let ?it = "\<lparr>item_key = k, item_value = v, item_expiration = now + lifetime c\<rparr>"
  have "length (evictList (MoveToFront c ?it)) \<le> length (evictList c)"
    using Some by (rule MoveToFront_bounded) simp
  then show ?thesis using Some assms(2) by (simp add: gcache_Set_def Let_def)
qed

lemma Get_bounded:
  assumes "bounded l"
  shows "bounded (snd (Get l now k)) \<and>
         capacity (cache (snd (Get l now k))) = capacity (cache l) \<and>
         lifetime (cache (snd (Get l now k))) = lifetime (cache l)"
proof -
  obtain r gc where g: "gcache_Get (cache l) now (KeyObjectsList k) = (r, gc)"
    by (cases "gcache_Get (cache l) now (KeyObjectsList k)")
  have c: "cache (snd (Get l now k)) = gc"
    using g by (simp add: Get_def split: sum.splits dyn_value.splits)
  from gcache_Get_params [of "cache l" now "KeyObjectsList k"] g
  have "capacity gc = capacity (cache l)" "lifetime gc = lifetime (cache l)"
    "length (evictList gc) \<le> length (evictList (cache l))" by simp_all
  with assms c show ?thesis by (simp add: bounded_def)
qed

lemma Put_bounded:
  assumes "bounded l"
  shows "bounded (snd (Put l now k oids)) \<and>
         capacity (cache (snd (Put l now k oids))) = capacity (cache l) \<and>
         lifetime (cache (snd (Put l now k oids))) = lifetime (cache l)"
proof (cases "len oids = 0")
  case True
  with assms show ?thesis by (simp add: Put_def)
next
  case False
  have c: "cache (snd (Put l now k oids)) =
      snd (gcache_Set (cache l) now (KeyObjectsList k) (ValOidSlice oids))"
    using False by (simp add: Put_def split: prod.splits)
  from assms have "0 < capacity (cache l)"
    "int (length (evictList (cache l))) \<le> capacity (cache l)"
    by (simp_all add: bounded_def)
  from gcache_Set_length [OF this] gcache_Set_params [of "cache l"] c \<open>0 < capacity (cache l)\<close>
  show ?thesis by (simp add: bounded_def)
qed

lemma Clean_bounded:
  assumes "bounded l"
  shows "bounded (CleanCacheEntriesContainingObject enc l now nm cnr) \<and>
         capacity (cache (CleanCacheEntriesContainingObject enc l now nm cnr)) = capacity (cache l) \<and>
         lifetime (cache (CleanCacheEntriesContainingObject enc l now nm cnr)) = lifetime (cache l)"
proof -
  let ?l' = "CleanCacheEntriesContainingObject enc l now nm cnr"
  have p: "capacity (cache ?l') = capacity (cache l) \<and> lifetime (cache ?l') = lifetime (cache l)"
    by (simp add: CleanCacheEntriesContainingObject_def clean_loop_params)
  have "length (evictList (cache ?l')) \<le> length (evictList (cache l))"
    by (simp add: CleanCacheEntriesContainingObject_def clean_loop_evictList)
  with assms p show ?thesis by (simp add: bounded_def)
qed

lemma apply_op_bounded:
  assumes "bounded l"
  shows "bounded (apply_op enc l c) \<and>
         capacity (cache (apply_op enc l c)) = capacity (cache l) \<and>
         lifetime (cache (apply_op enc l c)) = lifetime (cache l)"
proof (cases c)
  case (Pair now op)
  show ?thesis
  proof (cases op)
    case (OpGet k)
    with Pair Get_bounded [OF assms] show ?thesis by simp
  next
    case (OpPut k oids)
    with Pair Put_bounded [OF assms] show ?thesis by simp
  next
    case (OpClean nm cnr)
    with Pair Clean_bounded [OF assms] show ?thesis by simp
  qed
qed

lemma run_ops_bounded:
  "bounded l \<Longrightarrow>
     bounded (run_ops enc l cs) \<and>
     capacity (cache (run_ops enc l cs)) = capacity (cache l) \<and>
     lifetime (cache (run_ops enc l cs)) = lifetime (cache l)"
proof (induction cs arbitrary: l)
  case Nil
  then show ?case by simp
next
  case (Cons c cs)
  from apply_op_bounded [OF Cons.prems, of enc c]
  have b: "bounded (apply_op enc l c)"
    and p: "capacity (cache (apply_op enc l c)) = capacity (cache l)"
       "lifetime (cache (apply_op enc l c)) = lifetime (cache l)" by simp_all
  from Cons.IH [OF b] p show ?case by simp
qed

lemma not_Has_stays_missed:
  assumes "\<not> gcache_Has c now k" and "now \<le> now'"
  shows "\<not> gcache_Has c now' k"
  using assms by (auto simp: gcache_Has_def IsExpired_def split: option.splits)

lemma fst_Get_not_Has:
  "\<not> gcache_Has (cache l) now (KeyObjectsList ky) \<Longrightarrow> fst (Get l now ky) = NilSlice"
  by (auto simp: fst_Get gcache_Has_def split: option.splits)

lemma lru_find_Put:
  "len oids \<noteq> 0 \<Longrightarrow>
   lru_find (cache (snd (Put l now ky oids))) (KeyObjectsList ky) =
     Some \<lparr>item_key = KeyObjectsList ky, item_value = ValOidSlice oids,
           item_expiration = now + lifetime (cache l)\<rparr>"
  by (simp add: Put_def gcache_Set_def lru_find_def MoveToFront_def evict_def Let_def
      split: option.splits)

lemma Get_mismatch:
  assumes "lru_find (cache l) (KeyObjectsList ky) = Some it" and "\<not> IsExpired it now"
    and "item_value it = ValOther T"
  shows "Get l now ky =
           (NilSlice,
            l\<lparr>cache := MoveToFront (cache l) it,
              logger := logger l @
                [Warn ''invalid cache entry type''
                   [(''actual'', T), (''expected'', ''[]oid.ID'')]]\<rparr>)"
  using assms by (simp add: Get_def gcache_Get_def)

lemma Get_library_error:
  assumes "fst (gcache_Get (cache l) now (KeyObjectsList ky)) = Inl e"
  shows "fst (Get l now ky) = NilSlice \<and> logger (snd (Get l now ky)) = logger l"
proof -
  obtain r gc where g: "gcache_Get (cache l) now (KeyObjectsList ky) = (r, gc)"
    by (cases "gcache_Get (cache l) now (KeyObjectsList ky)")
  with assms have "r = Inl e" by simp
  with g show ?thesis by (simp add: Get_def)
qed

lemma scenario_find:
  "lru_find (cache scenario_cache) (KeyObjectsList scenario_key) =
     Some \<lparr>item_key = KeyObjectsList scenario_key, item_value = ValOidSlice (Slice [1]),
           item_expiration = 100\<rparr>"
  by (simp add: lru_find_def scenario_cache_def)

lemma corrupted_find:
  "lru_find (cache corrupted_cache) (KeyObjectsList scenario_key) =
     Some \<lparr>item_key = KeyObjectsList scenario_key, item_value = ValOther ''string'',
           item_expiration = 100\<rparr>"
  by (simp add: lru_find_def corrupted_cache_def)

lemma NewObjectsListCache_Some:
  assumes "NewObjectsListCache config = Some l"
  shows "0 < Size config \<and> l = \<lparr>cache = \<lparr>capacity = Size config, lifetime = Lifetime config,
            evictList = []\<rparr>, logger = Logger config\<rparr>"
  using assms by (auto simp: NewObjectsListCache_def gcache_New_def split: if_splits)

lemma Put_then_Get:
  assumes "len oids \<noteq> 0"
  shows "fst (Get (snd (Put l now ky oids)) now' ky) =
           (if now + lifetime (cache l) < now' then NilSlice else oids)"
  by (simp add: fst_Get lru_find_Put [OF assms] IsExpired_def)

lemma three_puts_keys:
  "map item_key (evictList (cache (run_ops scenario_enc small_cache three_puts))) =
     [KeyObjectsList \<lparr>cid = ''C1'', prefix = ''c/'', latestOnly = False\<rparr>,
      KeyObjectsList \<lparr>cid = ''C1'', prefix = ''b/'', latestOnly = False\<rparr>]"
  by (simp add: three_puts_def small_cache_def Put_def gcache_Set_def lru_find_def evict_def
      Let_def)


text \<open>
  Every cache reached from a built one has pairwise distinct keys, so that removing the
  items of a key removes the one item the library holds for it.
\<close>

lemma lru_find_None_notin:
  "lru_find c k = None \<Longrightarrow> k \<notin> item_key ` set (evictList c)"
  by (auto simp: lru_find_def find_None_iff)

lemma MoveToFront_distinct:
  "distinct (map item_key (evictList c)) \<Longrightarrow>
   distinct (map item_key (evictList (MoveToFront c it)))"
  by (auto simp: MoveToFront_def distinct_map_filter)

lemma gcache_Get_distinct:
  "distinct (map item_key (evictList c)) \<Longrightarrow>
   distinct (map item_key (evictList (snd (gcache_Get c now k))))"
  by (cases "lru_find c k")
     (simp_all add: gcache_Get_def MoveToFront_distinct removeElement_def distinct_map_filter)

lemma gcache_Set_distinct:
  assumes "distinct (map item_key (evictList c))"
  shows "distinct (map item_key (evictList (snd (gcache_Set c now k v))))"
proof (cases "lru_find c k")
  case None
  then have n: "k \<notin> item_key ` set (evictList c)" by (rule lru_find_None_notin)
  then have n': "k \<notin> item_key ` set (butlast (evictList c))"
    by (auto dest: in_set_butlastD)
  have d': "distinct (map item_key (butlast (evictList c)))"
    using assms by (simp add: map_butlast distinct_butlast)
  show ?thesis using None n n' d' assms
    by (simp add: gcache_Set_def evict_def Let_def)
next
  case (Some old)
  then show ?thesis using assms
    by (simp add: gcache_Set_def Let_def MoveToFront_distinct)
qed

lemma Get_distinct_keys: "distinct_keys l \<Longrightarrow> distinct_keys (snd (Get l now k))"
proof -
  assume d: "distinct_keys l"
  obtain r gc where g: "gcache_Get (cache l) now (KeyObjectsList k) = (r, gc)"
    by (cases "gcache_Get (cache l) now (KeyObjectsList k)")
  have c: "cache (snd (Get l now k)) = gc"
    using g by (simp add: Get_def split: sum.splits dyn_value.splits)
  from gcache_Get_distinct [of "cache l" now "KeyObjectsList k"] d g
  have "distinct (map item_key (evictList gc))" by (simp add: distinct_keys_def)
  with c show ?thesis by (simp add: distinct_keys_def)
qed

lemma Put_distinct_keys: "distinct_keys l \<Longrightarrow> distinct_keys (snd (Put l now k oids))"
proof (cases "len oids = 0")
  case True
  assume "distinct_keys l"
  with True show ?thesis by (simp add: Put_def)
next
  case False
  assume d: "distinct_keys l"
  have c: "cache (snd (Put l now k oids)) =
      snd (gcache_Set (cache l) now (KeyObjectsList k) (ValOidSlice oids))"
    using False by (simp add: Put_def split: prod.splits)
  from d gcache_Set_distinct [of "cache l"] show ?thesis
    by (simp add: distinct_keys_def c)
qed

lemma Clean_distinct_keys:
  "distinct_keys l \<Longrightarrow> distinct_keys (CleanCacheEntriesContainingObject enc l now nm cnr)"
  by (simp add: distinct_keys_def CleanCacheEntriesContainingObject_def clean_loop_evictList
      distinct_map_filter)

lemma apply_op_distinct_keys: "distinct_keys l \<Longrightarrow> distinct_keys (apply_op enc l c)"
proof (cases c)
  case (Pair now op)
  assume d: "distinct_keys l"
  show ?thesis
  proof (cases op)
    case (OpGet k)
    with Pair Get_distinct_keys [OF d] show ?thesis by simp
  next
    case (OpPut k oids)
    with Pair Put_distinct_keys [OF d] show ?thesis by simp
  next
    case (OpClean nm cnr)
    with Pair Clean_distinct_keys [OF d] show ?thesis by simp
  qed
qed

lemma run_ops_distinct_keys: "distinct_keys l \<Longrightarrow> distinct_keys (run_ops enc l cs)"
  by (induction cs arbitrary: l) (simp_all add: apply_op_distinct_keys)

lemma NewObjectsListCache_distinct_keys:
  "NewObjectsListCache config = Some l \<Longrightarrow> distinct_keys (run_ops enc l cs)"
proof -
  assume "NewObjectsListCache config = Some l"
  then have "distinct_keys l"
    by (auto simp: NewObjectsListCache_def gcache_New_def distinct_keys_def split: if_splits)
  then show ?thesis by (rule run_ops_distinct_keys)
qed








section \<open>Invalidation by a written key\<close>

text \<open>
  Claim C1 (invalidation completeness). For every container, every written object name
  and every cache key whose container string is the container's text form and whose
  prefix starts the object name, a \<open>Get\<close> on that key at any instant not before the
  run of \<open>CleanCacheEntriesContainingObject\<close> for that container and name misses,
  whatever the \<open>latestOnly\<close> flag of the key.
\<close>

theorem invalidation_completeness:
  assumes "cid ky = enc cnr" and "objectName = prefix ky @ rest" and "now \<le> now'"
  shows "fst (Get (CleanCacheEntriesContainingObject enc l now objectName cnr) now' ky)
           = NilSlice"
proof -
  let ?k = "KeyObjectsList ky"
  let ?l' = "CleanCacheEntriesContainingObject enc l now objectName cnr"
  have m: "matches (enc cnr) objectName ?k"
    using assms(1,2) by (simp add: matches_def HasPrefix_append)
  show ?thesis
  proof (cases "gcache_Has (cache l) now ?k")
    case True
    with m have "lru_find (cache ?l') ?k = None" by (simp add: lru_find_Clean)
    then show ?thesis by (simp add: fst_Get)
  next
    case False
    then have same: "lru_find (cache ?l') ?k = lru_find (cache l) ?k"
      by (simp add: lru_find_Clean)
    from False assms(3) have "\<not> gcache_Has (cache l) now' ?k"
      by (rule not_Has_stays_missed)
    then have "\<not> gcache_Has (cache ?l') now' ?k"
      by (simp add: gcache_Has_def same)
    then show ?thesis by (rule fst_Get_not_Has)
  qed
qed

theorem invalidation_completeness_witness:
  "cid scenario_key = scenario_enc 1 \<and> ''a/b/d.txt'' = prefix scenario_key @ ''b/d.txt'' \<and>
   (10::int) \<le> 20 \<and>
   fst (Get scenario_cache 20 scenario_key) = Slice [1] \<and>
   fst (Get (CleanCacheEntriesContainingObject scenario_enc scenario_cache 10 ''a/b/d.txt'' 1)
          20 scenario_key) = NilSlice"
proof -
  have h1: "cid scenario_key = scenario_enc 1"
    by (simp add: scenario_key_def scenario_enc_def)
  have h2: "''a/b/d.txt'' = prefix scenario_key @ ''b/d.txt''"
    by (simp add: scenario_key_def)
  have h3: "(10::int) \<le> 20" by simp
  have before: "fst (Get scenario_cache 20 scenario_key) = Slice [1]"
    by (simp add: Get_def gcache_Get_def lru_find_def scenario_cache_def IsExpired_def)
  have after: "fst (Get (CleanCacheEntriesContainingObject scenario_enc scenario_cache 10
      ''a/b/d.txt'' 1) 20 scenario_key) = NilSlice"
    using h1 h2 h3 by (rule invalidation_completeness)
  from h1 h2 h3 before after show ?thesis by blast
qed

text \<open>
  Claim C9 (invalidation frame). For a cache key whose container string differs from the
  written container's text form, or whose prefix does not start the written object name,
  \<open>CleanCacheEntriesContainingObject\<close> leaves the item stored under the key as it was,
  and a \<open>Get\<close> on the key afterwards answers what it would have answered without
  the run.
\<close>

theorem invalidation_frame:
  assumes "cid ky \<noteq> enc cnr \<or> (\<forall>rest. objectName \<noteq> prefix ky @ rest)"
  shows "lru_find (cache (CleanCacheEntriesContainingObject enc l now objectName cnr))
             (KeyObjectsList ky) = lru_find (cache l) (KeyObjectsList ky) \<and>
         fst (Get (CleanCacheEntriesContainingObject enc l now objectName cnr) now' ky)
           = fst (Get l now' ky)"
proof -
  have "\<not> matches (enc cnr) objectName (KeyObjectsList ky)"
    using assms by (auto simp: matches_def HasPrefix_iff)
  then have "lru_find (cache (CleanCacheEntriesContainingObject enc l now objectName cnr))
             (KeyObjectsList ky) = lru_find (cache l) (KeyObjectsList ky)"
    by (simp add: lru_find_Clean)
  then show ?thesis by (simp add: fst_Get)
qed

theorem invalidation_frame_witness:
  "fst (Get scenario_cache 20 scenario_key) = Slice [1] \<and>
   fst (Get (CleanCacheEntriesContainingObject scenario_enc scenario_cache 10 ''b/x.txt'' 1)
          20 scenario_key) = Slice [1] \<and>
   cid scenario_key \<noteq> scenario_enc 2 \<and>
   fst (Get (CleanCacheEntriesContainingObject scenario_enc scenario_cache 10 ''a/b/d.txt'' 2)
          20 scenario_key) = Slice [1]"
proof -
  have h1: "cid scenario_key \<noteq> scenario_enc 1 \<or> (\<forall>rest. ''b/x.txt'' \<noteq> prefix scenario_key @ rest)"
    by (simp add: scenario_key_def)
  have h2: "cid scenario_key \<noteq> scenario_enc 2 \<or> (\<forall>rest. ''a/b/d.txt'' \<noteq> prefix scenario_key @ rest)"
    by (simp add: scenario_key_def scenario_enc_def)
  have before: "fst (Get scenario_cache 20 scenario_key) = Slice [1]"
    by (simp add: Get_def gcache_Get_def lru_find_def scenario_cache_def IsExpired_def)
  have a1: "fst (Get (CleanCacheEntriesContainingObject scenario_enc scenario_cache 10
      ''b/x.txt'' 1) 20 scenario_key) = fst (Get scenario_cache 20 scenario_key)"
    using invalidation_frame [where enc = scenario_enc, OF h1] by blast
  have a2: "fst (Get (CleanCacheEntriesContainingObject scenario_enc scenario_cache 10
      ''a/b/d.txt'' 2) 20 scenario_key) = fst (Get scenario_cache 20 scenario_key)"
    using invalidation_frame [where enc = scenario_enc, OF h2] by blast
  have ne: "cid scenario_key \<noteq> scenario_enc 2"
    by (simp add: scenario_key_def scenario_enc_def)
  from a1 a2 before ne show ?thesis by simp
qed

text \<open>
  Claim C10 (empty prefix). A cache key of the written container whose prefix is the empty
  string is invalidated by the write of any object name: a \<open>Get\<close> on it at any instant
  not before the run misses.
\<close>

theorem empty_prefix_invalidated:
  assumes "cid ky = enc cnr" and "prefix ky = []" and "now \<le> now'"
  shows "fst (Get (CleanCacheEntriesContainingObject enc l now objectName cnr) now' ky)
           = NilSlice"
proof -
  let ?k = "KeyObjectsList ky"
  let ?l' = "CleanCacheEntriesContainingObject enc l now objectName cnr"
  have m: "matches (enc cnr) objectName ?k"
    using assms(1,2) by (simp add: matches_def HasPrefix_empty)
  have "\<not> gcache_Has (cache ?l') now' ?k"
  proof (cases "gcache_Has (cache l) now ?k")
    case True
    with m show ?thesis by (simp add: gcache_Has_def lru_find_Clean)
  next
    case False
    from False assms(3) have "\<not> gcache_Has (cache l) now' ?k"
      by (rule not_Has_stays_missed)
    with False show ?thesis by (simp add: gcache_Has_def lru_find_Clean)
  qed
  then show ?thesis by (rule fst_Get_not_Has)
qed

theorem empty_prefix_invalidated_witness:
  "cid \<lparr>cid = ''C1'', prefix = [], latestOnly = True\<rparr> = scenario_enc 1 \<and>
   prefix \<lparr>cid = ''C1'', prefix = [], latestOnly = True\<rparr> = [] \<and> (10::int) \<le> 20 \<and>
   fst (Get (CleanCacheEntriesContainingObject scenario_enc
               (snd (Put scenario_cache 5 \<lparr>cid = ''C1'', prefix = [], latestOnly = True\<rparr>
                      (Slice [1, 2])))
               10 ''z.bin'' 1)
          20 \<lparr>cid = ''C1'', prefix = [], latestOnly = True\<rparr>) = NilSlice"
proof -
  let ?ky = "\<lparr>cid = ''C1'', prefix = [], latestOnly = True\<rparr>"
  have h1: "cid ?ky = scenario_enc 1" by (simp add: scenario_enc_def)
  have h2: "prefix ?ky = []" by simp
  have h3: "(10::int) \<le> 20" by simp
  have after: "fst (Get (CleanCacheEntriesContainingObject scenario_enc
               (snd (Put scenario_cache 5 ?ky (Slice [1, 2]))) 10 ''z.bin'' 1) 20 ?ky)
             = NilSlice"
    using h1 h2 h3 by (rule empty_prefix_invalidated)
  from h1 h2 h3 after show ?thesis by blast
qed


section \<open>Put and Get\<close>

text \<open>
  Claim C4 (read your write). For every cache key and every non-empty id list, \<open>Put\<close>
  succeeds and a \<open>Get\<close> on the same key, at an instant at which the entry's lifetime
  has not run out and with no call in between, returns the very slice that was put.
\<close>

theorem put_get_roundtrip:
  assumes "len oids \<noteq> 0" and "\<not> (now + lifetime (cache l) < now')"
  shows "fst (Put l now ky oids) = None \<and>
         fst (Get (snd (Put l now ky oids)) now' ky) = oids"
proof -
  have "fst (Put l now ky oids) = None"
    using assms(1) by (simp add: Put_def gcache_Set_def Let_def split: option.splits)
  moreover have "fst (Get (snd (Put l now ky oids)) now' ky) = oids"
    using assms(2) by (simp add: fst_Get lru_find_Put [OF assms(1)] IsExpired_def)
  ultimately show ?thesis by simp
qed

theorem put_get_roundtrip_witness:
  "len (Slice [7, 8 :: oid_ID]) \<noteq> 0 \<and> \<not> (10 + lifetime (cache scenario_cache) < 70) \<and>
   fst (Put scenario_cache 10 scenario_key (Slice [7, 8])) = None \<and>
   fst (Get (snd (Put scenario_cache 10 scenario_key (Slice [7, 8]))) 70 scenario_key)
     = Slice [7, 8]"
proof -
  have h1: "len (Slice [7, 8 :: oid_ID]) \<noteq> 0" by simp
  have h2: "\<not> (10 + lifetime (cache scenario_cache) < 70)"
    by (simp add: scenario_cache_def)
  from put_get_roundtrip [OF h1 h2] h1 h2 show ?thesis by blast
qed

text \<open>
  Claim C2, as stated, fails. With the listing of the scenario cached, \<open>Put\<close> of an
  empty list under the same key returns the error to its caller, and the \<open>Get\<close> that
  follows does not miss: it returns the listing cached before.
\<close>

theorem Put_empty_counterexample:
  "fst (Put scenario_cache 10 scenario_key (Slice [])) =
     Some (Errorf ''list is empty, cid: C1, prefix: a/'') \<and>
   fst (Get (snd (Put scenario_cache 10 scenario_key (Slice []))) 10 scenario_key)
     = Slice [1]"
  by (simp add: Put_def Get_def gcache_Get_def lru_find_def scenario_cache_def
      scenario_key_def IsExpired_def)

text \<open>
  Claim C2, amended. \<open>Put\<close> with an empty id list (nil or of length 0) returns the error
  \<open>list is empty, cid: ..., prefix: ...\<close> to its caller and leaves the cache as it was:
  every later \<open>Get\<close> answers what it would have answered without the \<open>Put\<close>, and
  misses on the key when the key had no live entry.
\<close>

theorem Put_empty_no_op:
  assumes "len oids = 0"
  shows "fst (Put l now ky oids) =
           Some (Errorf (''list is empty, cid: '' @ cid ky @ '', prefix: '' @ prefix ky)) \<and>
         snd (Put l now ky oids) = l \<and>
         Get (snd (Put l now ky oids)) now' ky' = Get l now' ky' \<and>
         (\<not> gcache_Has (cache l) now' (KeyObjectsList ky) \<longrightarrow>
            fst (Get (snd (Put l now ky oids)) now' ky) = NilSlice)"
  using assms by (simp add: Put_def fst_Get_not_Has)

theorem Put_empty_no_op_witness:
  "len (NilSlice :: oid_ID slice) = 0 \<and>
   \<not> gcache_Has (cache scenario_cache) 10
       (KeyObjectsList \<lparr>cid = ''C1'', prefix = ''b/'', latestOnly = False\<rparr>) \<and>
   fst (Put scenario_cache 10 \<lparr>cid = ''C1'', prefix = ''b/'', latestOnly = False\<rparr> NilSlice) =
     Some (Errorf ''list is empty, cid: C1, prefix: b/'') \<and>
   snd (Put scenario_cache 10 \<lparr>cid = ''C1'', prefix = ''b/'', latestOnly = False\<rparr> NilSlice)
     = scenario_cache \<and>
   fst (Get (snd (Put scenario_cache 10 \<lparr>cid = ''C1'', prefix = ''b/'', latestOnly = False\<rparr>
                NilSlice)) 10 \<lparr>cid = ''C1'', prefix = ''b/'', latestOnly = False\<rparr>) = NilSlice"
proof -
  let ?ky = "\<lparr>cid = ''C1'', prefix = ''b/'', latestOnly = False\<rparr>"
  have h1: "len (NilSlice :: oid_ID slice) = 0" by simp
  have h2: "\<not> gcache_Has (cache scenario_cache) 10 (KeyObjectsList ?ky)"
    by (simp add: gcache_Has_def lru_find_def scenario_cache_def scenario_key_def)
  note inst = Put_empty_no_op [OF h1, of scenario_cache 10 ?ky 10 ?ky]
  have e: "fst (Put scenario_cache 10 ?ky NilSlice) =
      Some (Errorf ''list is empty, cid: C1, prefix: b/'')"
    using inst by simp
  have s: "snd (Put scenario_cache 10 ?ky NilSlice) = scenario_cache"
    using inst by blast
  have g: "fst (Get (snd (Put scenario_cache 10 ?ky NilSlice)) 10 ?ky) = NilSlice"
    using inst h2 by blast
  from h1 h2 e s g show ?thesis by blast
qed

text \<open>
  Claim C5 (key equality). Two keys made by \<open>CreateObjectsListCacheKey\<close> are equal
  exactly when the text forms of the container ids, the prefixes and the flags are equal;
  the key holds the prefix it was given, unchanged.
\<close>

theorem key_equality:
  "(CreateObjectsListCacheKey enc c1 p1 f1 = CreateObjectsListCacheKey enc c2 p2 f2
      \<longleftrightarrow> enc c1 = enc c2 \<and> p1 = p2 \<and> f1 = f2) \<and>
   cid (CreateObjectsListCacheKey enc c1 p1 f1) = enc c1 \<and>
   prefix (CreateObjectsListCacheKey enc c1 p1 f1) = p1 \<and>
   latestOnly (CreateObjectsListCacheKey enc c1 p1 f1) = f1"
  by (simp add: CreateObjectsListCacheKey_def)

theorem key_equality_witness:
  "CreateObjectsListCacheKey scenario_enc 1 ''a/'' False = scenario_key \<and>
   CreateObjectsListCacheKey scenario_enc 1 ''A/'' False
     \<noteq> CreateObjectsListCacheKey scenario_enc 1 ''a/'' False \<and>
   CreateObjectsListCacheKey scenario_enc 1 ''a/'' True
     \<noteq> CreateObjectsListCacheKey scenario_enc 1 ''a/'' False \<and>
   CreateObjectsListCacheKey scenario_enc 2 ''a/'' False
     \<noteq> CreateObjectsListCacheKey scenario_enc 1 ''a/'' False \<and>
   CreateObjectsListCacheKey scenario_enc 2 ''a/'' False
     = CreateObjectsListCacheKey scenario_enc 3 ''a/'' False"
  using key_equality [of scenario_enc 1 "''A/''" False 1 "''a/''" False]
    key_equality [of scenario_enc 1 "''a/''" True 1 "''a/''" False]
    key_equality [of scenario_enc 2 "''a/''" False 1 "''a/''" False]
    key_equality [of scenario_enc 2 "''a/''" False 3 "''a/''" False]
  by (simp add: scenario_enc_def scenario_key_def CreateObjectsListCacheKey_def)

text \<open>
  Claim C3 (what \<open>Get\<close> returns). A result other than nil comes from an item that is
  stored under the key, is not expired, and holds that slice; such an item is returned. An
  item of another dynamic type gives nil and one warning in the log. Every error of the
  cache library (key absent or expired) gives nil and no log record. \<open>Get\<close> has no
  error result and no panicking step, so it is a total function to a slice.
\<close>

theorem Get_hit_or_silent_miss:
  "(fst (Get l now ky) \<noteq> NilSlice \<longrightarrow>
      (\<exists>it. lru_find (cache l) (KeyObjectsList ky) = Some it \<and> \<not> IsExpired it now \<and>
            item_value it = ValOidSlice (fst (Get l now ky)))) \<and>
   (\<forall>it r. lru_find (cache l) (KeyObjectsList ky) = Some it \<and> \<not> IsExpired it now \<and>
        item_value it = ValOidSlice r \<longrightarrow> fst (Get l now ky) = r) \<and>
   (\<forall>it T. lru_find (cache l) (KeyObjectsList ky) = Some it \<and> \<not> IsExpired it now \<and>
        item_value it = ValOther T \<longrightarrow>
        fst (Get l now ky) = NilSlice \<and>
        logger (snd (Get l now ky)) =
          logger l @ [Warn ''invalid cache entry type''
                        [(''actual'', T), (''expected'', ''[]oid.ID'')]]) \<and>
   (\<forall>e. fst (gcache_Get (cache l) now (KeyObjectsList ky)) = Inl e \<longrightarrow>
        fst (Get l now ky) = NilSlice \<and> logger (snd (Get l now ky)) = logger l)"
proof (intro conjI allI impI)
  assume "fst (Get l now ky) \<noteq> NilSlice"
  then show "\<exists>it. lru_find (cache l) (KeyObjectsList ky) = Some it \<and> \<not> IsExpired it now \<and>
            item_value it = ValOidSlice (fst (Get l now ky))"
    by (auto simp: fst_Get split: option.splits if_splits dyn_value.splits)
next
  fix it r
  assume "lru_find (cache l) (KeyObjectsList ky) = Some it \<and> \<not> IsExpired it now \<and>
        item_value it = ValOidSlice r"
  then show "fst (Get l now ky) = r" by (simp add: fst_Get)
next
  fix it T
  assume a: "lru_find (cache l) (KeyObjectsList ky) = Some it \<and> \<not> IsExpired it now \<and>
        item_value it = ValOther T"
  then have g: "Get l now ky =
           (NilSlice,
            l\<lparr>cache := MoveToFront (cache l) it,
              logger := logger l @
                [Warn ''invalid cache entry type''
                   [(''actual'', T), (''expected'', ''[]oid.ID'')]]\<rparr>)"
    by (simp add: Get_mismatch)
  show "fst (Get l now ky) = NilSlice" by (simp add: g)
  show "logger (snd (Get l now ky)) =
          logger l @ [Warn ''invalid cache entry type''
                        [(''actual'', T), (''expected'', ''[]oid.ID'')]]"
    by (simp add: g)
next
  fix e
  assume a: "fst (gcache_Get (cache l) now (KeyObjectsList ky)) = Inl e"
  show "fst (Get l now ky) = NilSlice" using Get_library_error [OF a] by simp
  show "logger (snd (Get l now ky)) = logger l" using Get_library_error [OF a] by simp
qed

theorem Get_hit_or_silent_miss_witness:
  "fst (Get scenario_cache 20 scenario_key) = Slice [1] \<and>
   fst (Get corrupted_cache 20 scenario_key) = NilSlice \<and>
   logger (snd (Get corrupted_cache 20 scenario_key)) =
     logger corrupted_cache @
       [Warn ''invalid cache entry type'' [(''actual'', ''string''), (''expected'', ''[]oid.ID'')]] \<and>
   fst (gcache_Get (cache scenario_cache) 200 (KeyObjectsList scenario_key)) = Inl KeyNotFoundError \<and>
   fst (Get scenario_cache 200 scenario_key) = NilSlice \<and>
   logger (snd (Get scenario_cache 200 scenario_key)) = logger scenario_cache"
proof -
  let ?good = "\<lparr>item_key = KeyObjectsList scenario_key, item_value = ValOidSlice (Slice [1]),
           item_expiration = 100\<rparr>"
  let ?bad = "\<lparr>item_key = KeyObjectsList scenario_key, item_value = ValOther ''string'',
           item_expiration = 100\<rparr>"
  have h1: "lru_find (cache scenario_cache) (KeyObjectsList scenario_key) = Some ?good \<and>
      \<not> IsExpired ?good 20 \<and> item_value ?good = ValOidSlice (Slice [1])"
    by (simp add: scenario_find IsExpired_def)
  have h2: "lru_find (cache corrupted_cache) (KeyObjectsList scenario_key) = Some ?bad \<and>
      \<not> IsExpired ?bad 20 \<and> item_value ?bad = ValOther ''string''"
    by (simp add: corrupted_find IsExpired_def)
  have h3: "fst (gcache_Get (cache scenario_cache) 200 (KeyObjectsList scenario_key))
      = Inl KeyNotFoundError"
    by (simp add: gcache_Get_def scenario_find IsExpired_def)
  from h1 Get_hit_or_silent_miss [of scenario_cache 20 scenario_key]
  have hit: "fst (Get scenario_cache 20 scenario_key) = Slice [1]" by blast
  from h2 Get_hit_or_silent_miss [of corrupted_cache 20 scenario_key]
  have bad: "fst (Get corrupted_cache 20 scenario_key) = NilSlice \<and>
      logger (snd (Get corrupted_cache 20 scenario_key)) =
        logger corrupted_cache @
          [Warn ''invalid cache entry type'' [(''actual'', ''string''), (''expected'', ''[]oid.ID'')]]"
    by blast
  from h3 Get_hit_or_silent_miss [of scenario_cache 200 scenario_key]
  have miss: "fst (Get scenario_cache 200 scenario_key) = NilSlice \<and>
      logger (snd (Get scenario_cache 200 scenario_key)) = logger scenario_cache"
    by blast
  from hit bad h3 miss show ?thesis by blast
qed


section \<open>Configuration, version nodes and signing\<close>

text \<open>
  Claim C6 (configuration and defaults). The default configuration has size \<open>10^5\<close> and
  lifetime 60 seconds. \<open>NewObjectsListCache\<close> builds an empty cache whose capacity and
  lifetime are those of the configuration (and panics exactly on a size that is not
  positive); after any sequence of calls the capacity and the lifetime are unchanged and
  the number of entries is at most the capacity; an entry put at \<open>now\<close> is returned up
  to the instant \<open>now + Lifetime\<close> and not after it.
\<close>

theorem cache_configuration:
  "Size (DefaultObjectsListConfig lg) = 10 ^ 5 \<and>
   Lifetime (DefaultObjectsListConfig lg) = 60 * Second \<and> Second = 10 ^ 9 \<and>
   (NewObjectsListCache config = None \<longleftrightarrow> Size config \<le> 0) \<and>
   (\<forall>l. NewObjectsListCache config = Some l \<longrightarrow>
      capacity (cache l) = Size config \<and> lifetime (cache l) = Lifetime config \<and>
      evictList (cache l) = [] \<and>
      (\<forall>ops. capacity (cache (run_ops enc l ops)) = Size config \<and>
             lifetime (cache (run_ops enc l ops)) = Lifetime config \<and>
             int (length (evictList (cache (run_ops enc l ops)))) \<le> Size config) \<and>
      (\<forall>now now' ky oids. len oids \<noteq> 0 \<longrightarrow>
             fst (Get (snd (Put l now ky oids)) now' ky) =
               (if now + Lifetime config < now' then NilSlice else oids)))"
proof (intro conjI allI impI)
  show "Size (DefaultObjectsListConfig lg) = 10 ^ 5"
    by (simp add: DefaultObjectsListConfig_def DefaultObjectsListCacheSize_def)
  show "Lifetime (DefaultObjectsListConfig lg) = 60 * Second"
    by (simp add: DefaultObjectsListConfig_def DefaultObjectsListCacheLifetime_def)
  show "Second = 10 ^ 9" by (simp add: Second_def)
  show "NewObjectsListCache config = None \<longleftrightarrow> Size config \<le> 0"
    by (simp add: NewObjectsListCache_def gcache_New_def)
next
  fix l
  assume a: "NewObjectsListCache config = Some l"
  note s = NewObjectsListCache_Some [OF a]
  from s show "capacity (cache l) = Size config" by simp
  from s show "lifetime (cache l) = Lifetime config" by simp
  from s show "evictList (cache l) = []" by simp
  from s have b: "bounded l" by (simp add: bounded_def)
  fix ops
  note r = run_ops_bounded [OF b, of enc ops]
  from r s show "capacity (cache (run_ops enc l ops)) = Size config" by simp
  from r s show "lifetime (cache (run_ops enc l ops)) = Lifetime config" by simp
  from r s show "int (length (evictList (cache (run_ops enc l ops)))) \<le> Size config"
    by (simp add: bounded_def)
next
  fix l now now' ky oids
  assume a: "NewObjectsListCache config = Some l" and n: "len (oids :: oid_ID slice) \<noteq> 0"
  from NewObjectsListCache_Some [OF a] have "lifetime (cache l) = Lifetime config" by simp
  with Put_then_Get [OF n, of l now ky now']
  show "fst (Get (snd (Put l now ky oids)) now' ky) =
               (if now + Lifetime config < now' then NilSlice else oids)" by simp
qed

theorem cache_configuration_witness:
  "NewObjectsListCache small_config = Some small_cache \<and>
   NewObjectsListCache \<lparr>Size = 0, Lifetime = 60, Logger = []\<rparr> = None \<and>
   length (evictList (cache (run_ops scenario_enc small_cache three_puts))) = 2 \<and>
   int (length (evictList (cache (run_ops scenario_enc small_cache three_puts))))
     \<le> Size small_config \<and>
   len (Slice [1 :: oid_ID]) \<noteq> 0 \<and>
   fst (Get (snd (Put small_cache 1 scenario_key (Slice [1]))) 61 scenario_key) = Slice [1] \<and>
   fst (Get (snd (Put small_cache 1 scenario_key (Slice [1]))) 62 scenario_key) = NilSlice"
proof -
  note T = cache_configuration [of "[]" small_config scenario_enc]
  have n: "NewObjectsListCache small_config = Some small_cache"
    by (simp add: NewObjectsListCache_def gcache_New_def small_config_def small_cache_def)
  have z: "NewObjectsListCache \<lparr>Size = 0, Lifetime = 60, Logger = []\<rparr> = None"
    using cache_configuration [of "[]" "\<lparr>Size = 0, Lifetime = 60, Logger = []\<rparr>" scenario_enc]
    by simp
  have len2: "length (evictList (cache (run_ops scenario_enc small_cache three_puts))) = 2"
    using three_puts_keys [THEN arg_cong, of length] by simp
  from T n have b: "int (length (evictList (cache (run_ops scenario_enc small_cache three_puts))))
     \<le> Size small_config" by blast
  have ne: "len (Slice [1 :: oid_ID]) \<noteq> 0" by simp
  from T n ne have g: "\<And>now'. fst (Get (snd (Put small_cache 1 scenario_key (Slice [1]))) now'
      scenario_key) = (if 1 + Lifetime small_config < now' then NilSlice else Slice [1])"
    by blast
  have g1: "fst (Get (snd (Put small_cache 1 scenario_key (Slice [1]))) 61 scenario_key)
      = Slice [1]"
    using g [of 61] by (simp add: small_config_def)
  have g2: "fst (Get (snd (Put small_cache 1 scenario_key (Slice [1]))) 62 scenario_key)
      = NilSlice"
    using g [of 62] by (simp add: small_config_def)
  from n z len2 b ne g1 g2 show ?thesis by blast
qed



text \<open>
  Claim C8 (request signing). \<open>signRequest\<close> serializes the request body, signs exactly
  those bytes with the client's key and hands the public key and the signature to the
  callback; if serialization fails, or if signing fails, it returns that error and the
  callback is not run, so nothing is attached.
\<close>

theorem signRequest_signs_serialized_body:
  "(\<forall>buf sg. Marshal body = Inr buf \<and> Sign (key c) buf = Inr sg \<longrightarrow>
       signRequest Marshal Sign PublicKeyBytes c body f r
         = (None, f (PublicKeyBytes (key c)) sg r)) \<and>
   (\<forall>e. Marshal body = Inl e \<longrightarrow>
       signRequest Marshal Sign PublicKeyBytes c body f r = (Some e, r)) \<and>
   (\<forall>buf e. Marshal body = Inr buf \<and> Sign (key c) buf = Inl e \<longrightarrow>
       signRequest Marshal Sign PublicKeyBytes c body f r = (Some e, r))"
  by (simp add: signRequest_def signData_def)

theorem signRequest_signs_serialized_body_witness:
  "signRequest sample_Marshal sample_Sign sample_PublicKeyBytes \<lparr>key = 3\<rparr>
      (Some [10, 20]) attach [] = (None, [([4], [3, 10, 20])]) \<and>
   signRequest sample_Marshal sample_Sign sample_PublicKeyBytes \<lparr>key = 3\<rparr>
      None attach [] = (Some (Errorf ''proto: Marshal called with nil''), []) \<and>
   signRequest sample_Marshal sample_Sign sample_PublicKeyBytes \<lparr>key = 0\<rparr>
      (Some [10, 20]) attach [] = (Some (Errorf ''invalid private key''), [])"
proof -
  have m: "sample_Marshal (Some [10, 20]) = Inr [10, 20]"
    by (simp add: sample_Marshal_def)
  have s: "sample_Sign (key \<lparr>key = 3\<rparr>) [10, 20] = Inr [3, 10, 20]"
    by (simp add: sample_Sign_def)
  have m0: "sample_Marshal None = Inl (Errorf ''proto: Marshal called with nil'')"
    by (simp add: sample_Marshal_def)
  have s0: "sample_Sign (key \<lparr>key = 0\<rparr>) [10, 20] = Inl (Errorf ''invalid private key'')"
    by (simp add: sample_Sign_def)
  from m s signRequest_signs_serialized_body
      [of sample_Marshal "Some [10, 20]" sample_Sign "\<lparr>key = 3\<rparr>" sample_PublicKeyBytes attach "[]"]
  have ok: "signRequest sample_Marshal sample_Sign sample_PublicKeyBytes \<lparr>key = 3\<rparr>
      (Some [10, 20]) attach [] = (None, attach (sample_PublicKeyBytes (key \<lparr>key = 3\<rparr>)) [3, 10, 20] [])"
    by blast
  from m0 signRequest_signs_serialized_body
      [of sample_Marshal None sample_Sign "\<lparr>key = 3\<rparr>" sample_PublicKeyBytes attach "[]"]
  have e1: "signRequest sample_Marshal sample_Sign sample_PublicKeyBytes \<lparr>key = 3\<rparr>
      None attach [] = (Some (Errorf ''proto: Marshal called with nil''), [])"
    by blast
  from m s0 signRequest_signs_serialized_body
      [of sample_Marshal "Some [10, 20]" sample_Sign "\<lparr>key = 0\<rparr>" sample_PublicKeyBytes attach "[]"]
  have e2: "signRequest sample_Marshal sample_Sign sample_PublicKeyBytes \<lparr>key = 0\<rparr>
      (Some [10, 20]) attach [] = (Some (Errorf ''invalid private key''), [])"
    by blast
  from ok e1 e2 show ?thesis by (simp add: attach_def sample_PublicKeyBytes_def)
qed

end
